theory Spec2Isabelle
  imports Main
begin

section \<open>The auth facade of react-native-firebase (lib/modules/auth/index.js)\<close>

text \<open>
  The class \<open>Auth\<close> keeps the last auth state the native bridge reported, a cached
  \<open>User\<close> handle and (through its base class) a list of listeners, and forwards every
  other method to the native module through \<open>promisify\<close>.  The embedding passes the
  object's state explicitly.  Identifiers that start with an underscore in the source
  carry the prefix \<open>priv_\<close> here.
\<close>

subsection \<open>JavaScript values of the data model\<close>

text \<open>
  A value that may be \<open>undefined\<close> (also: a property that is absent), \<open>null\<close>, or a
  proper value of the Flow type.
\<close>

datatype 'a nullable = Undefined | Null | Val 'a

text \<open>Truthiness of an object reference: only \<open>undefined\<close> and \<open>null\<close> are falsy.\<close>

fun truthy :: "'a nullable \<Rightarrow> bool" where
  "truthy Undefined = False"
| "truthy Null = False"
| "truthy (Val _) = True"

text \<open>\<open>b || false\<close> for a boolean that may be absent.\<close>

fun or_false :: "bool nullable \<Rightarrow> bool" where
  "or_false Undefined = False"
| "or_false Null = False"
| "or_false (Val b) = b"

text \<open>\<open>x || null\<close> for an object reference.\<close>

fun or_null :: "'a nullable \<Rightarrow> 'a nullable" where
  "or_null Undefined = Null"
| "or_null Null = Null"
| "or_null (Val x) = Val x"

text \<open>A plain object with string-valued properties (the user payload, profile updates).\<close>

type_synonym js_object = "(string \<times> string) list"

text \<open>
  \<open>type AuthResultType = { authenticated: boolean, user: Object|null }\<close>; either
  property may be missing from the object the bridge sends.
\<close>

record AuthResultType =
  result_authenticated :: "bool nullable"
  result_user :: "js_object nullable"

text \<open>\<open>type CredentialType = { provider: string, token: string, secret: string }\<close>\<close>

record CredentialType =
  provider :: string
  token :: string
  secret :: string

subsection \<open>The collaborators that live in other modules\<close>

text \<open>
  Modelled from the spec: the class \<open>User\<close> of \<open>./user\<close> (its constructor and
  \<open>_updateValues\<close>) is not part of the source at hand.  The spec calls it a thin value
  object for the current principal that is refreshed in place when a new state arrives;
  the handle therefore holds the auth state it was last given.
\<close>

record User =
  priv_authObj :: "AuthResultType nullable"

definition User_new :: "AuthResultType nullable \<Rightarrow> User" where
  "User_new auth = \<lparr>priv_authObj = auth\<rparr>"

definition User_updateValues :: "User \<Rightarrow> AuthResultType nullable \<Rightarrow> User" where
  "User_updateValues u auth = u\<lparr>priv_authObj := auth\<rparr>"

text \<open>
  Listeners are callbacks of the application; they are told apart by identity.  A
  listener that is called is taken to return, and not to call back into the facade.
\<close>

type_synonym listener = nat

text \<open>An argument handed to a native method.\<close>

datatype native_arg = AStr string | AObj js_object

text \<open>What the bridge reports for one call: a failure or a result object.\<close>

record bridge_error =
  code :: string
  message :: string

type_synonym promise = "bridge_error + js_object"

text \<open>
  The native module \<open>NativeModules.FirebaseAuth\<close>: for a method name and its
  arguments, how the bridge settles the call.
\<close>

type_synonym NativeModule = "string \<Rightarrow> native_arg list \<Rightarrow> promise"

text \<open>
  One call into the native module: the method, the error prefix given to \<open>promisify\<close>
  (none where the source gives none) and the arguments.
\<close>

record native_call =
  call_fn :: string
  call_errorPrefix :: "string option"
  call_args :: "native_arg list"

subsection \<open>The state of the facade and of what it acts on\<close>

text \<open>
  The first three fields are the fields of the class.  \<open>listeners\<close> is the state of the
  emitter the class inherits from \<open>Base\<close>.  \<open>heap\<close> holds the \<open>User\<close> objects created so
  far, a reference being an index into it, so that replacing the handle and mutating it
  are different things.  The remaining fields record the effects on the outside: the
  listener invocations, the native subscriptions, the calls into the native module and
  the log lines, each in order.
\<close>

record Auth =
  priv_user :: "nat option"
  priv_authResult :: "AuthResultType nullable"
  authenticated :: bool
  listeners :: "string \<Rightarrow> listener list"
  heap :: "User list"
  notified :: "(listener \<times> js_object nullable) list"
  native_listeners :: "string list"
  native_calls :: "native_call list"
  logs :: "string list list"

datatype js_error = TypeError

datatype outcome = Returned | Threw js_error

text \<open>\<open>this.log.info(...)\<close>\<close>

definition log_info :: "string list \<Rightarrow> Auth \<Rightarrow> Auth" where
  "log_info msg s = s\<lparr>logs := logs s @ [msg]\<rparr>"

text \<open>
  Modelled from the spec: the emitter methods \<open>on\<close>, \<open>removeListener\<close> and \<open>emit\<close> come
  from the base class in \<open>./../base\<close>, which is not part of the source at hand.  The
  spec describes a mapping from event name to an ordered set of callbacks, notified
  synchronously in registration order, where a removed listener gets nothing further.
\<close>

definition on :: "string \<Rightarrow> listener \<Rightarrow> Auth \<Rightarrow> Auth" where
  "on name l s =
     s\<lparr>listeners := (listeners s)
         (name := (if l \<in> set (listeners s name) then listeners s name
                   else listeners s name @ [l]))\<rparr>"

definition removeListener :: "string \<Rightarrow> listener \<Rightarrow> Auth \<Rightarrow> Auth" where
  "removeListener name l s =
     s\<lparr>listeners := (listeners s)(name := removeAll l (listeners s name))\<rparr>"

definition call_listener :: "js_object nullable \<Rightarrow> listener \<Rightarrow> Auth \<Rightarrow> Auth" where
  "call_listener payload l s = s\<lparr>notified := notified s @ [(l, payload)]\<rparr>"

definition emit :: "string \<Rightarrow> js_object nullable \<Rightarrow> Auth \<Rightarrow> Auth" where
  "emit name payload s = fold (call_listener payload) (listeners s name) s"

text \<open>
  Modelled from the spec: \<open>promisify\<close> of \<open>./../../utils\<close> is not part of the source at
  hand.  The spec has each wrapped operation perform one call into the bridge and
  return a promise that resolves or rejects exactly as the bridge does.  The promise is
  represented by how it settles.
\<close>

definition promisify ::
  "string \<Rightarrow> NativeModule \<Rightarrow> string option \<Rightarrow> native_arg list \<Rightarrow> Auth \<Rightarrow> promise \<times> Auth" where
  "promisify fn nativeModule errorPrefix args s =
     (nativeModule fn args,
      s\<lparr>native_calls := native_calls s @
          [\<lparr>call_fn = fn, call_errorPrefix = errorPrefix, call_args = args\<rparr>]\<rparr>)"

subsection \<open>Construction and the bridge's event\<close>

text \<open>
  The constructor clears the three fields, subscribes the handler to the native event
  \<open>listenForAuth\<close> and calls the native method of that name.  The emitter of the base
  class starts without listeners.
\<close>

definition constructor :: Auth where
  "constructor =
     \<lparr>priv_user = None, priv_authResult = Null, authenticated = False,
      listeners = (\<lambda>_. []), heap = [], notified = [],
      native_listeners = [''listenForAuth''],
      native_calls = [\<lparr>call_fn = ''listenForAuth'', call_errorPrefix = None, call_args = []\<rparr>],
      logs = []\<rparr>"

text \<open>\<open>auth && auth.user\<close>\<close>

fun has_user :: "AuthResultType nullable \<Rightarrow> bool" where
  "has_user (Val a) = truthy (result_user a)"
| "has_user _ = False"

text \<open>
  \<open>_onAuthStateChanged(auth)\<close>.  \<open>new User(this, auth)\<close> puts a new object on the heap
  and yields its reference; \<open>this._user._updateValues(auth)\<close> changes the object that
  \<open>_user\<close> refers to.  The last statement reads \<open>this._authResult.user\<close> before it
  calls \<open>emit\<close>; on \<open>null\<close> or \<open>undefined\<close> that read throws, and the assignments
  made before it stay.
\<close>

definition priv_onAuthStateChanged :: "AuthResultType nullable \<Rightarrow> Auth \<Rightarrow> outcome \<times> Auth" where
  "priv_onAuthStateChanged auth s =
     (let s1 = s\<lparr>priv_authResult := auth\<rparr>;
          s2 = s1\<lparr>authenticated :=
                   (case auth of Val a \<Rightarrow> or_false (result_authenticated a) | _ \<Rightarrow> False)\<rparr>;
          s3 = (if has_user auth \<and> priv_user s2 = None
                then s2\<lparr>priv_user := Some (length (heap s2)),
                        heap := heap s2 @ [User_new auth]\<rparr>
                else if \<not> has_user auth \<and> priv_user s2 \<noteq> None
                then s2\<lparr>priv_user := None\<rparr>
                else (case priv_user s2 of
                        Some r \<Rightarrow>
                          s2\<lparr>heap := (heap s2)[r := User_updateValues (heap s2 ! r) auth]\<rparr>
                      | None \<Rightarrow> s2))
      in case priv_authResult s3 of
           Val r \<Rightarrow> (Returned, emit ''onAuthStateChanged'' (or_null (result_user r)) s3)
         | _ \<Rightarrow> (Threw TypeError, s3))"

text \<open>\<open>get currentUser()\<close>\<close>

definition currentUser :: "Auth \<Rightarrow> nat option" where
  "currentUser s = priv_user s"

subsection \<open>Listening for auth changes\<close>

text \<open>
  The value \<open>this._offAuthStateChanged.bind(this, listener)\<close>: a function that
  remembers its listener.
\<close>

datatype unsubscribe = Bound_offAuthStateChanged listener

text \<open>\<open>onAuthStateChanged(listener)\<close>\<close>

definition onAuthStateChanged :: "listener \<Rightarrow> Auth \<Rightarrow> unsubscribe \<times> Auth" where
  "onAuthStateChanged l s =
     (let s1 = log_info [''Creating onAuthStateChanged listener''] s;
          s2 = on ''onAuthStateChanged'' l s1;
          s3 = (case priv_authResult s2 of
                  Val r \<Rightarrow> call_listener (or_null (result_user r)) l s2
                | _ \<Rightarrow> s2)
      in (Bound_offAuthStateChanged l, s3))"

text \<open>\<open>_offAuthStateChanged(listener)\<close>\<close>

definition priv_offAuthStateChanged :: "listener \<Rightarrow> Auth \<Rightarrow> Auth" where
  "priv_offAuthStateChanged l s =
     removeListener ''onAuthStateChanged'' l
       (log_info [''Removing onAuthStateChanged listener''] s)"

text \<open>Calling the function that \<open>onAuthStateChanged\<close> returned.\<close>

fun call_unsubscribe :: "unsubscribe \<Rightarrow> Auth \<Rightarrow> Auth" where
  "call_unsubscribe (Bound_offAuthStateChanged l) s = priv_offAuthStateChanged l s"

subsection \<open>The forwarding methods\<close>

definition createUserWithEmailAndPassword ::
  "NativeModule \<Rightarrow> string \<Rightarrow> string \<Rightarrow> Auth \<Rightarrow> promise \<times> Auth" where
  "createUserWithEmailAndPassword FirebaseAuth email password s =
     promisify ''createUserWithEmail'' FirebaseAuth (Some ''auth/'') [AStr email, AStr password]
       (log_info [''Creating user with email and password'', email] s)"

definition signInWithEmailAndPassword ::
  "NativeModule \<Rightarrow> string \<Rightarrow> string \<Rightarrow> Auth \<Rightarrow> promise \<times> Auth" where
  "signInWithEmailAndPassword FirebaseAuth email password s =
     promisify ''signInWithEmail'' FirebaseAuth (Some ''auth/'') [AStr email, AStr password]
       (log_info [''Signing in user with email and password'', email] s)"

definition updateEmail :: "NativeModule \<Rightarrow> string \<Rightarrow> Auth \<Rightarrow> promise \<times> Auth" where
  "updateEmail FirebaseAuth email s =
     promisify ''updateUserEmail'' FirebaseAuth (Some ''auth/'') [AStr email] s"

definition sendEmailVerification :: "NativeModule \<Rightarrow> Auth \<Rightarrow> promise \<times> Auth" where
  "sendEmailVerification FirebaseAuth s =
     promisify ''sendEmailVerification'' FirebaseAuth (Some ''auth/'') [] s"

definition updatePassword :: "NativeModule \<Rightarrow> string \<Rightarrow> Auth \<Rightarrow> promise \<times> Auth" where
  "updatePassword FirebaseAuth password s =
     promisify ''updateUserPassword'' FirebaseAuth (Some ''auth/'') [AStr password] s"

text \<open>\<open>updateProfile(updates: Object = {})\<close>: an omitted argument is the empty object.\<close>

definition updateProfile :: "NativeModule \<Rightarrow> js_object option \<Rightarrow> Auth \<Rightarrow> promise \<times> Auth" where
  "updateProfile FirebaseAuth updates s =
     promisify ''updateUserProfile'' FirebaseAuth (Some ''auth/'')
       [AObj (case updates of None \<Rightarrow> [] | Some u \<Rightarrow> u)] s"

definition link :: "NativeModule \<Rightarrow> CredentialType \<Rightarrow> Auth \<Rightarrow> promise \<times> Auth" where
  "link FirebaseAuth credential s =
     promisify ''link'' FirebaseAuth (Some ''auth/'')
       [AStr (provider credential), AStr (token credential), AStr (secret credential)] s"

definition signInWithCustomToken :: "NativeModule \<Rightarrow> string \<Rightarrow> Auth \<Rightarrow> promise \<times> Auth" where
  "signInWithCustomToken FirebaseAuth customToken s =
     promisify ''signInWithCustomToken'' FirebaseAuth None [AStr customToken] s"

definition signInWithCredential :: "NativeModule \<Rightarrow> CredentialType \<Rightarrow> Auth \<Rightarrow> promise \<times> Auth" where
  "signInWithCredential FirebaseAuth credential s =
     promisify ''signInWithProvider'' FirebaseAuth (Some ''auth/'')
       [AStr (provider credential), AStr (token credential), AStr (secret credential)] s"

definition reauthenticateUser :: "NativeModule \<Rightarrow> CredentialType \<Rightarrow> Auth \<Rightarrow> promise \<times> Auth" where
  "reauthenticateUser FirebaseAuth credential s =
     promisify ''reauthenticateWithCredentialForProvider'' FirebaseAuth (Some ''auth/'')
       [AStr (provider credential), AStr (token credential), AStr (secret credential)] s"

definition signInAnonymously :: "NativeModule \<Rightarrow> Auth \<Rightarrow> promise \<times> Auth" where
  "signInAnonymously FirebaseAuth s =
     promisify ''signInAnonymously'' FirebaseAuth (Some ''auth/'') [] s"

definition sendPasswordResetEmail :: "NativeModule \<Rightarrow> string \<Rightarrow> Auth \<Rightarrow> promise \<times> Auth" where
  "sendPasswordResetEmail FirebaseAuth email s =
     promisify ''sendPasswordResetWithEmail'' FirebaseAuth (Some ''auth/'') [AStr email] s"

definition deleteUser :: "NativeModule \<Rightarrow> Auth \<Rightarrow> promise \<times> Auth" where
  "deleteUser FirebaseAuth s = promisify ''deleteUser'' FirebaseAuth (Some ''auth/'') [] s"

definition reloadUser :: "NativeModule \<Rightarrow> Auth \<Rightarrow> promise \<times> Auth" where
  "reloadUser FirebaseAuth s = promisify ''reloadUser'' FirebaseAuth (Some ''auth/'') [] s"

definition getToken :: "NativeModule \<Rightarrow> Auth \<Rightarrow> promise \<times> Auth" where
  "getToken FirebaseAuth s = promisify ''getToken'' FirebaseAuth (Some ''auth/'') [] s"

definition signOut :: "NativeModule \<Rightarrow> Auth \<Rightarrow> promise \<times> Auth" where
  "signOut FirebaseAuth s = promisify ''signOut'' FirebaseAuth (Some ''auth/'') [] s"

definition getCurrentUser :: "NativeModule \<Rightarrow> Auth \<Rightarrow> promise \<times> Auth" where
  "getCurrentUser FirebaseAuth s = promisify ''getCurrentUser'' FirebaseAuth (Some ''auth/'') [] s"

text \<open>One invocation of a forwarding method, with its arguments.\<close>

datatype api_call =
    CreateUserWithEmailAndPassword string string
  | SignInWithEmailAndPassword string string
  | UpdateEmail string
  | SendEmailVerification
  | UpdatePassword string
  | UpdateProfile "js_object option"
  | Link CredentialType
  | SignInWithCustomToken string
  | SignInWithCredential CredentialType
  | ReauthenticateUser CredentialType
  | SignInAnonymously
  | SendPasswordResetEmail string
  | DeleteUser
  | ReloadUser
  | GetToken
  | SignOut
  | GetCurrentUser

fun forward :: "NativeModule \<Rightarrow> api_call \<Rightarrow> Auth \<Rightarrow> promise \<times> Auth" where
  "forward nm (CreateUserWithEmailAndPassword e p) s = createUserWithEmailAndPassword nm e p s"
| "forward nm (SignInWithEmailAndPassword e p) s = signInWithEmailAndPassword nm e p s"
| "forward nm (UpdateEmail e) s = updateEmail nm e s"
| "forward nm SendEmailVerification s = sendEmailVerification nm s"
| "forward nm (UpdatePassword p) s = updatePassword nm p s"
| "forward nm (UpdateProfile u) s = updateProfile nm u s"
| "forward nm (Link c) s = link nm c s"
| "forward nm (SignInWithCustomToken t) s = signInWithCustomToken nm t s"
| "forward nm (SignInWithCredential c) s = signInWithCredential nm c s"
| "forward nm (ReauthenticateUser c) s = reauthenticateUser nm c s"
| "forward nm SignInAnonymously s = signInAnonymously nm s"
| "forward nm (SendPasswordResetEmail e) s = sendPasswordResetEmail nm e s"
| "forward nm DeleteUser s = deleteUser nm s"
| "forward nm ReloadUser s = reloadUser nm s"
| "forward nm GetToken s = getToken nm s"
| "forward nm SignOut s = signOut nm s"
| "forward nm GetCurrentUser s = getCurrentUser nm s"

text \<open>The name of the native method each forwarding method names.\<close>

fun native_name :: "api_call \<Rightarrow> string" where
  "native_name (CreateUserWithEmailAndPassword e p) = ''createUserWithEmail''"
| "native_name (SignInWithEmailAndPassword e p) = ''signInWithEmail''"
| "native_name (UpdateEmail e) = ''updateUserEmail''"
| "native_name SendEmailVerification = ''sendEmailVerification''"
| "native_name (UpdatePassword p) = ''updateUserPassword''"
| "native_name (UpdateProfile u) = ''updateUserProfile''"
| "native_name (Link c) = ''link''"
| "native_name (SignInWithCustomToken t) = ''signInWithCustomToken''"
| "native_name (SignInWithCredential c) = ''signInWithProvider''"
| "native_name (ReauthenticateUser c) = ''reauthenticateWithCredentialForProvider''"
| "native_name SignInAnonymously = ''signInAnonymously''"
| "native_name (SendPasswordResetEmail e) = ''sendPasswordResetWithEmail''"
| "native_name DeleteUser = ''deleteUser''"
| "native_name ReloadUser = ''reloadUser''"
| "native_name GetToken = ''getToken''"
| "native_name SignOut = ''signOut''"
| "native_name GetCurrentUser = ''getCurrentUser''"

text \<open>The arguments each forwarding method hands to the native method.\<close>

fun credential_args :: "CredentialType \<Rightarrow> native_arg list" where
  "credential_args c = [AStr (provider c), AStr (token c), AStr (secret c)]"

fun native_args :: "api_call \<Rightarrow> native_arg list" where
  "native_args (CreateUserWithEmailAndPassword e p) = [AStr e, AStr p]"
| "native_args (SignInWithEmailAndPassword e p) = [AStr e, AStr p]"
| "native_args (UpdateEmail e) = [AStr e]"
| "native_args SendEmailVerification = []"
| "native_args (UpdatePassword p) = [AStr p]"
| "native_args (UpdateProfile None) = [AObj []]"
| "native_args (UpdateProfile (Some u)) = [AObj u]"
| "native_args (Link c) = credential_args c"
| "native_args (SignInWithCustomToken t) = [AStr t]"
| "native_args (SignInWithCredential c) = credential_args c"
| "native_args (ReauthenticateUser c) = credential_args c"
| "native_args SignInAnonymously = []"
| "native_args (SendPasswordResetEmail e) = [AStr e]"
| "native_args DeleteUser = []"
| "native_args ReloadUser = []"
| "native_args GetToken = []"
| "native_args SignOut = []"
| "native_args GetCurrentUser = []"

subsection \<open>Runs of the facade\<close>

text \<open>
  What can happen to a constructed facade: the bridge emits an event, the application
  registers a listener or calls an unsubscribe function, or it calls a forwarding
  method.  An event whose handler throws leaves the facade in the state reached at the
  throw; the next event is handled from there.
\<close>

datatype action =
    Bridge_event "AuthResultType nullable"
  | Subscribe listener
  | Unsubscribe unsubscribe
  | Forward api_call

fun step :: "NativeModule \<Rightarrow> action \<Rightarrow> Auth \<Rightarrow> Auth" where
  "step nm (Bridge_event auth) s = snd (priv_onAuthStateChanged auth s)"
| "step nm (Subscribe l) s = snd (onAuthStateChanged l s)"
| "step nm (Unsubscribe u) s = call_unsubscribe u s"
| "step nm (Forward c) s = snd (forward nm c s)"

definition run :: "NativeModule \<Rightarrow> action list \<Rightarrow> Auth \<Rightarrow> Auth" where
  "run nm acts s = fold (step nm) acts s"

text \<open>The events of a sequence, handled one after the other.\<close>

definition process_events :: "AuthResultType nullable list \<Rightarrow> Auth \<Rightarrow> Auth" where
  "process_events evs s = fold (\<lambda>auth s. snd (priv_onAuthStateChanged auth s)) evs s"

subsection \<open>Notions used in the properties\<close>

text \<open>A reference held in \<open>_user\<close> points at an object that was created.\<close>

definition ref_ok :: "Auth \<Rightarrow> bool" where
  "ref_ok s = (case priv_user s of None \<Rightarrow> True | Some r \<Rightarrow> r < length (heap s))"

text \<open>The invocations of one listener, in order.\<close>

definition notified_to :: "listener \<Rightarrow> Auth \<Rightarrow> js_object nullable list" where
  "notified_to l s = map snd (filter (\<lambda>n. fst n = l) (notified s))"

section \<open>Properties\<close>

subsection \<open>What each operation does to each field\<close>

lemma fold_call_listener:
  "fold (call_listener p) ls s = s\<lparr>notified := notified s @ map (\<lambda>l. (l, p)) ls\<rparr>"
  by (induction ls arbitrary: s) (simp_all add: call_listener_def)

lemma emit_eq:
  "emit name p s = s\<lparr>notified := notified s @ map (\<lambda>l. (l, p)) (listeners s name)\<rparr>"
  by (simp add: emit_def fold_call_listener)

lemma or_null_case: "or_null x = (case x of Val v \<Rightarrow> Val v | _ \<Rightarrow> Null)"
  by (cases x) simp_all

lemma or_false_iff: "or_false b = (b = Val True)"
  by (cases b) simp_all

lemma has_user_iff: "has_user auth \<longleftrightarrow> (\<exists>a u. auth = Val a \<and> result_user a = Val u)"
  by (cases auth) (auto elim: truthy.elims)

lemma handler_fst:
  "fst (priv_onAuthStateChanged auth s) = (if truthy auth then Returned else Threw TypeError)"
  by (cases auth) (simp_all add: priv_onAuthStateChanged_def Let_def split: option.splits)

lemma handler_priv_user:
  "priv_user (snd (priv_onAuthStateChanged auth s)) =
     (if has_user auth
      then (case priv_user s of None \<Rightarrow> Some (length (heap s)) | Some r \<Rightarrow> Some r)
      else None)"
  by (cases auth)
     (simp_all add: priv_onAuthStateChanged_def Let_def emit_eq split: option.splits)

lemma handler_heap:
  "heap (snd (priv_onAuthStateChanged auth s)) =
     (if has_user auth
      then (case priv_user s of
              None \<Rightarrow> heap s @ [User_new auth]
            | Some r \<Rightarrow> (heap s)[r := User_updateValues (heap s ! r) auth])
      else heap s)"
  by (cases auth)
     (simp_all add: priv_onAuthStateChanged_def Let_def emit_eq split: option.splits)

lemma handler_listeners:
  "listeners (snd (priv_onAuthStateChanged auth s)) = listeners s"
  by (cases auth)
     (simp_all add: priv_onAuthStateChanged_def Let_def emit_eq split: option.splits)

lemma handler_notified:
  "notified (snd (priv_onAuthStateChanged auth s)) =
     notified s @
       (case auth of
          Val a \<Rightarrow> map (\<lambda>l. (l, or_null (result_user a))) (listeners s ''onAuthStateChanged'')
        | _ \<Rightarrow> [])"
  by (cases auth)
     (simp_all add: priv_onAuthStateChanged_def Let_def emit_eq split: option.splits)

lemma handler_authResult:
  "priv_authResult (snd (priv_onAuthStateChanged auth s)) = auth"
  by (cases auth)
     (simp_all add: priv_onAuthStateChanged_def Let_def emit_eq split: option.splits)

lemma handler_authenticated:
  "authenticated (snd (priv_onAuthStateChanged auth s)) =
     (case auth of Val a \<Rightarrow> or_false (result_authenticated a) | _ \<Rightarrow> False)"
  by (cases auth)
     (simp_all add: priv_onAuthStateChanged_def Let_def emit_eq split: option.splits)

lemma process_events_snoc:
  "process_events (evs @ [ev]) s = snd (priv_onAuthStateChanged ev (process_events evs s))"
  by (simp add: process_events_def)

lemmas forward_defs =
  createUserWithEmailAndPassword_def signInWithEmailAndPassword_def updateEmail_def
  sendEmailVerification_def updatePassword_def updateProfile_def link_def
  signInWithCustomToken_def signInWithCredential_def reauthenticateUser_def
  signInAnonymously_def sendPasswordResetEmail_def deleteUser_def reloadUser_def
  getToken_def signOut_def getCurrentUser_def promisify_def log_info_def

lemma forward_fields:
  "priv_user (snd (forward nm c s)) = priv_user s"
  "priv_authResult (snd (forward nm c s)) = priv_authResult s"
  "authenticated (snd (forward nm c s)) = authenticated s"
  "listeners (snd (forward nm c s)) = listeners s"
  "heap (snd (forward nm c s)) = heap s"
  "notified (snd (forward nm c s)) = notified s"
  "native_listeners (snd (forward nm c s)) = native_listeners s"
  by (cases c; simp add: forward_defs)+

lemma forward_result: "fst (forward nm c s) = nm (native_name c) (native_args c)"
  by (cases c; simp add: forward_defs split: option.splits)

lemma forward_native_calls:
  "native_calls (snd (forward nm c s)) =
     native_calls s @
       [\<lparr>call_fn = native_name c,
         call_errorPrefix = (case c of SignInWithCustomToken t \<Rightarrow> None | _ \<Rightarrow> Some ''auth/''),
         call_args = native_args c\<rparr>]"
  by (cases c; simp add: forward_defs split: option.splits)

lemma subscribe_fields:
  "priv_user (snd (onAuthStateChanged l s)) = priv_user s"
  "priv_authResult (snd (onAuthStateChanged l s)) = priv_authResult s"
  "authenticated (snd (onAuthStateChanged l s)) = authenticated s"
  "heap (snd (onAuthStateChanged l s)) = heap s"
  "native_calls (snd (onAuthStateChanged l s)) = native_calls s"
  by (simp_all add: onAuthStateChanged_def Let_def on_def log_info_def call_listener_def
      split: nullable.splits)

lemma subscribe_listeners:
  "listeners (snd (onAuthStateChanged l s)) =
     (listeners s)(''onAuthStateChanged'' :=
        (if l \<in> set (listeners s ''onAuthStateChanged'') then listeners s ''onAuthStateChanged''
         else listeners s ''onAuthStateChanged'' @ [l]))"
  by (simp add: onAuthStateChanged_def Let_def on_def log_info_def call_listener_def
      split: nullable.splits)

lemma subscribe_notified:
  "notified (snd (onAuthStateChanged l s)) =
     notified s @ (case priv_authResult s of Val r \<Rightarrow> [(l, or_null (result_user r))] | _ \<Rightarrow> [])"
  by (simp add: onAuthStateChanged_def Let_def on_def log_info_def call_listener_def
      split: nullable.splits)

lemma subscribe_fst: "fst (onAuthStateChanged l s) = Bound_offAuthStateChanged l"
  by (simp add: onAuthStateChanged_def Let_def)

lemma off_fields:
  "priv_user (priv_offAuthStateChanged l s) = priv_user s"
  "priv_authResult (priv_offAuthStateChanged l s) = priv_authResult s"
  "authenticated (priv_offAuthStateChanged l s) = authenticated s"
  "heap (priv_offAuthStateChanged l s) = heap s"
  "notified (priv_offAuthStateChanged l s) = notified s"
  "native_calls (priv_offAuthStateChanged l s) = native_calls s"
  by (simp_all add: priv_offAuthStateChanged_def removeListener_def log_info_def)

lemma off_listeners:
  "listeners (priv_offAuthStateChanged l s) =
     (listeners s)(''onAuthStateChanged'' := removeAll l (listeners s ''onAuthStateChanged''))"
  by (simp add: priv_offAuthStateChanged_def removeListener_def log_info_def)

subsection \<open>Invariants of runs\<close>

lemma step_ref_ok: "ref_ok s \<Longrightarrow> ref_ok (step nm a s)"
proof (cases a)
  case (Bridge_event auth)
  assume "ref_ok s"
  then show ?thesis using Bridge_event
    by (simp add: ref_ok_def handler_priv_user handler_heap split: option.splits)
next
  case (Subscribe l)
  assume "ref_ok s"
  then show ?thesis using Subscribe by (simp add: ref_ok_def subscribe_fields split: option.splits)
next
  case (Unsubscribe u)
  assume "ref_ok s"
  then show ?thesis using Unsubscribe by (cases u) (simp add: ref_ok_def off_fields split: option.splits)
next
  case (Forward c)
  assume "ref_ok s"
  then show ?thesis using Forward by (simp add: ref_ok_def forward_fields split: option.splits)
qed

lemma step_distinct:
  "distinct (listeners s n) \<Longrightarrow> distinct (listeners (step nm a s) n)"
proof (cases a)
  case (Bridge_event auth)
  assume "distinct (listeners s n)"
  then show ?thesis using Bridge_event by (simp add: handler_listeners)
next
  case (Subscribe l)
  assume "distinct (listeners s n)"
  then show ?thesis using Subscribe by (auto simp add: subscribe_listeners)
next
  case (Unsubscribe u)
  assume "distinct (listeners s n)"
  then show ?thesis using Unsubscribe by (cases u) (auto simp add: off_listeners distinct_removeAll)
next
  case (Forward c)
  assume "distinct (listeners s n)"
  then show ?thesis using Forward by (simp add: forward_fields)
qed

lemma run_snoc: "run nm (acts @ [a]) s = step nm a (run nm acts s)"
  by (simp add: run_def)

lemma run_Cons: "run nm (a # acts) s = run nm acts (step nm a s)"
  by (simp add: run_def)

lemma run_Nil: "run nm [] s = s"
  by (simp add: run_def)

lemma run_ref_ok: "ref_ok s \<Longrightarrow> ref_ok (run nm acts s)"
  by (induction acts arbitrary: s) (simp_all add: run_Nil run_Cons step_ref_ok)

lemma run_distinct: "distinct (listeners s n) \<Longrightarrow> distinct (listeners (run nm acts s) n)"
  by (induction acts arbitrary: s) (simp_all add: run_Nil run_Cons step_distinct)

lemma constructor_ref_ok: "ref_ok constructor"
  by (simp add: ref_ok_def constructor_def)

lemma constructor_distinct: "distinct (listeners constructor n)"
  by (simp add: constructor_def)

subsection \<open>The invocations of one listener\<close>

lemma filter_notifications_absent:
  "l \<notin> set ls \<Longrightarrow> filter (\<lambda>n. fst n = l) (map (\<lambda>k. (k, p)) ls) = []"
  by (induction ls) auto

lemma filter_notifications_one:
  "distinct ls \<Longrightarrow> l \<in> set ls \<Longrightarrow> filter (\<lambda>n. fst n = l) (map (\<lambda>k. (k, p)) ls) = [(l, p)]"
  by (induction ls) (auto simp: filter_notifications_absent)

lemma notified_to_handler_registered:
  "distinct (listeners s ''onAuthStateChanged'') \<Longrightarrow> l \<in> set (listeners s ''onAuthStateChanged'') \<Longrightarrow>
   notified_to l (snd (priv_onAuthStateChanged (Val a) s)) = notified_to l s @ [or_null (result_user a)]"
  by (simp add: notified_to_def handler_notified filter_notifications_one)

lemma notified_to_handler_unregistered:
  "l \<notin> set (listeners s ''onAuthStateChanged'') \<Longrightarrow>
   notified_to l (snd (priv_onAuthStateChanged auth s)) = notified_to l s"
  by (cases auth) (simp_all add: notified_to_def handler_notified filter_notifications_absent)

lemma step_unregistered:
  assumes "l \<notin> set (listeners s ''onAuthStateChanged'')" and "a \<noteq> Subscribe l"
  shows "l \<notin> set (listeners (step nm a s) ''onAuthStateChanged'') \<and>
         notified_to l (step nm a s) = notified_to l s"
proof (cases a)
  case (Bridge_event auth)
  with assms show ?thesis
    by (simp add: handler_listeners notified_to_handler_unregistered)
next
  case (Subscribe k)
  with assms have "k \<noteq> l" by auto
  with assms Subscribe show ?thesis
    by (simp add: subscribe_listeners notified_to_def subscribe_notified split: nullable.splits)
next
  case (Unsubscribe u)
  with assms show ?thesis
    by (cases u) (simp add: off_listeners notified_to_def off_fields)
next
  case (Forward c)
  with assms show ?thesis
    by (simp add: forward_fields notified_to_def)
qed

lemma run_unregistered:
  "l \<notin> set (listeners s ''onAuthStateChanged'') \<Longrightarrow> Subscribe l \<notin> set acts \<Longrightarrow>
   l \<notin> set (listeners (run nm acts s) ''onAuthStateChanged'') \<and>
   notified_to l (run nm acts s) = notified_to l s"
proof (induction acts arbitrary: s)
  case Nil
  then show ?case by (simp add: run_Nil)
next
  case (Cons a acts)
  from Cons.prems have a: "a \<noteq> Subscribe l" and rest: "Subscribe l \<notin> set acts" by auto
  from step_unregistered [OF Cons.prems(1) a, of nm]
  have 1: "l \<notin> set (listeners (step nm a s) ''onAuthStateChanged'')"
    and 2: "notified_to l (step nm a s) = notified_to l s" by simp_all
  from Cons.IH [OF 1 rest] 2 show ?case by (simp add: run_Cons)
qed

subsection \<open>The cached handle\<close>

text \<open>
  C1, as the code has it: after any sequence of bridge events handled since construction,
  \<open>currentUser\<close> is non-absent exactly when there was an event and the most recent one
  was an object with a user payload.  The \<open>authenticated\<close> flag of the event plays no
  part.
\<close>

theorem currentUser_iff_last_user:
  "currentUser (process_events evs constructor) \<noteq> None \<longleftrightarrow>
     evs \<noteq> [] \<and> (\<exists>a u. last evs = Val a \<and> result_user a = Val u)"
proof (cases evs rule: rev_cases)
  case Nil
  then show ?thesis by (simp add: process_events_def currentUser_def constructor_def)
next
  case (snoc ys y)
  have "priv_user (snd (priv_onAuthStateChanged y (process_events ys constructor))) \<noteq> None
        \<longleftrightarrow> has_user y"
    by (simp add: handler_priv_user split: option.splits)
  with snoc show ?thesis
    by (simp add: process_events_snoc currentUser_def has_user_iff)
qed

theorem currentUser_iff_last_user_witness:
  "currentUser (process_events
      [Val \<lparr>result_authenticated = Val True, result_user = Val [(''id'', ''u1''), (''email'', ''a@example.com'')]\<rparr>,
       Val \<lparr>result_authenticated = Val False, result_user = Undefined\<rparr>] constructor) = None"
  using currentUser_iff_last_user [of
      "[Val \<lparr>result_authenticated = Val True, result_user = Val [(''id'', ''u1''), (''email'', ''a@example.com'')]\<rparr>,
       Val \<lparr>result_authenticated = Val False, result_user = Undefined\<rparr>]"]
  by simp

text \<open>
  C1 as written asks for \<open>authenticated: true\<close> as well.  An event with a user payload
  and \<open>authenticated: false\<close> leaves a handle in the cache.
\<close>

theorem unauthenticated_event_with_user_counterexample:
  "\<not> (currentUser (process_events
          [Val \<lparr>result_authenticated = Val False, result_user = Val [(''id'', ''u1'')]\<rparr>]
          constructor) \<noteq> None
      \<longleftrightarrow>
        result_authenticated
          \<lparr>result_authenticated = Val False, result_user = Val [(''id'', ''u1'')]\<rparr> = Val True \<and>
        truthy (result_user
          \<lparr>result_authenticated = Val False, result_user = Val [(''id'', ''u1'')]\<rparr>))"
  by code_simp

text \<open>
  C2: the facade holds at most one handle, the reference in \<open>_user\<close>, and in every state
  reached from construction that reference points at a created object.  An event creates
  a new object only when no handle is cached and the event has a user payload; it clears
  the reference when a handle is cached and the event has none; and when a handle is
  cached and the event has a user payload, the reference stays the same and the object
  it points at is changed by \<open>_updateValues\<close>, no object being created.
\<close>

theorem handle_created_dropped_or_updated_in_place:
  "let s = run nm acts constructor; s' = snd (priv_onAuthStateChanged auth s) in
     (case priv_user s of
        None \<Rightarrow>
          (if has_user auth
           then priv_user s' = Some (length (heap s)) \<and> heap s' = heap s @ [User_new auth]
           else priv_user s' = None \<and> heap s' = heap s)
      | Some r \<Rightarrow>
          r < length (heap s) \<and>
          (if has_user auth
           then priv_user s' = Some r \<and> length (heap s') = length (heap s) \<and>
                heap s' = (heap s)[r := User_updateValues (heap s ! r) auth] \<and>
                heap s' ! r = User_updateValues (heap s ! r) auth
           else priv_user s' = None \<and> heap s' = heap s))"
proof -
  have "ref_ok (run nm acts constructor)"
    by (rule run_ref_ok [OF constructor_ref_ok])
  then show ?thesis
    by (simp add: Let_def ref_ok_def handler_priv_user handler_heap split: option.splits)
qed

theorem handle_created_dropped_or_updated_in_place_witness:
  "priv_user (run (\<lambda>fn args. Inr [])
      [Bridge_event (Val \<lparr>result_authenticated = Val True, result_user = Val [(''id'', ''u1'')]\<rparr>)]
      constructor) = Some 0 \<and>
   priv_user (snd (priv_onAuthStateChanged
      (Val \<lparr>result_authenticated = Val True, result_user = Val [(''id'', ''u1''), (''email'', ''b@example.com'')]\<rparr>)
      (run (\<lambda>fn args. Inr [])
        [Bridge_event (Val \<lparr>result_authenticated = Val True, result_user = Val [(''id'', ''u1'')]\<rparr>)]
        constructor))) = Some 0 \<and>
   heap (snd (priv_onAuthStateChanged
      (Val \<lparr>result_authenticated = Val True, result_user = Val [(''id'', ''u1''), (''email'', ''b@example.com'')]\<rparr>)
      (run (\<lambda>fn args. Inr [])
        [Bridge_event (Val \<lparr>result_authenticated = Val True, result_user = Val [(''id'', ''u1'')]\<rparr>)]
        constructor))) =
     [\<lparr>priv_authObj = Val \<lparr>result_authenticated = Val True,
         result_user = Val [(''id'', ''u1''), (''email'', ''b@example.com'')]\<rparr>\<rparr>]"
proof -
  have before: "priv_user (run (\<lambda>fn args. Inr [])
      [Bridge_event (Val \<lparr>result_authenticated = Val True, result_user = Val [(''id'', ''u1'')]\<rparr>)]
      constructor) = Some 0"
    by code_simp
  have objects: "heap (run (\<lambda>fn args. Inr [])
      [Bridge_event (Val \<lparr>result_authenticated = Val True, result_user = Val [(''id'', ''u1'')]\<rparr>)]
      constructor) = [\<lparr>priv_authObj = Val \<lparr>result_authenticated = Val True, result_user = Val [(''id'', ''u1'')]\<rparr>\<rparr>]"
    by code_simp
  show ?thesis
    using handle_created_dropped_or_updated_in_place [of "\<lambda>fn args. Inr []"
      "[Bridge_event (Val \<lparr>result_authenticated = Val True, result_user = Val [(''id'', ''u1'')]\<rparr>)]"
      "Val \<lparr>result_authenticated = Val True, result_user = Val [(''id'', ''u1''), (''email'', ''b@example.com'')]\<rparr>"]
    by (simp add: Let_def before objects User_updateValues_def)
qed

subsection \<open>Listeners\<close>

text \<open>
  C3: in every state reached from construction, \<open>onAuthStateChanged(listener)\<close> leaves
  the listener registered (a new one after those registered before), so that the next
  event notifies it once; it calls the
  listener once, at once, with the cached user or \<open>null\<close> when an auth state is cached,
  and does not call it when none is; and it returns the unsubscribe function bound to
  that listener, which removes it.
\<close>

theorem onAuthStateChanged_registers_and_replays:
  "let s = run nm acts constructor; (u, s') = onAuthStateChanged l s in
     l \<in> set (listeners s' ''onAuthStateChanged'') \<and>
     listeners s' ''onAuthStateChanged'' =
       (if l \<in> set (listeners s ''onAuthStateChanged'') then listeners s ''onAuthStateChanged''
        else listeners s ''onAuthStateChanged'' @ [l]) \<and>
     notified s' = notified s @
       (case priv_authResult s of
          Val r \<Rightarrow> [(l, case result_user r of Val x \<Rightarrow> Val x | _ \<Rightarrow> Null)]
        | _ \<Rightarrow> []) \<and>
     u = Bound_offAuthStateChanged l \<and>
     l \<notin> set (listeners (call_unsubscribe u s') ''onAuthStateChanged'') \<and>
     (\<forall>a. notified_to l (snd (priv_onAuthStateChanged (Val a) s')) =
            notified_to l s' @ [case result_user a of Val x \<Rightarrow> Val x | _ \<Rightarrow> Null])"
proof -
  define s where "s = run nm acts constructor"
  define s' where "s' = snd (onAuthStateChanged l s)"
  have d: "distinct (listeners s ''onAuthStateChanged'')"
    unfolding s_def by (rule run_distinct [OF constructor_distinct])
  have reg: "l \<in> set (listeners s' ''onAuthStateChanged'')"
    by (simp add: s'_def subscribe_listeners)
  have d': "distinct (listeners s' ''onAuthStateChanged'')"
    using d by (simp add: s'_def subscribe_listeners)
  have order: "listeners s' ''onAuthStateChanged'' =
       (if l \<in> set (listeners s ''onAuthStateChanged'') then listeners s ''onAuthStateChanged''
        else listeners s ''onAuthStateChanged'' @ [l])"
    by (simp add: s'_def subscribe_listeners)
  have replay: "notified s' = notified s @
       (case priv_authResult s of
          Val r \<Rightarrow> [(l, case result_user r of Val x \<Rightarrow> Val x | _ \<Rightarrow> Null)]
        | _ \<Rightarrow> [])"
    by (simp add: s'_def subscribe_notified or_null_case split: nullable.splits)
  have off: "l \<notin> set (listeners (call_unsubscribe (Bound_offAuthStateChanged l) s') ''onAuthStateChanged'')"
    by (simp add: off_listeners)
  have later: "notified_to l (snd (priv_onAuthStateChanged (Val a) s')) =
            notified_to l s' @ [case result_user a of Val x \<Rightarrow> Val x | _ \<Rightarrow> Null]" for a
    using notified_to_handler_registered [OF d' reg, of a] by (simp add: or_null_case)
  have "onAuthStateChanged l s = (Bound_offAuthStateChanged l, s')"
    by (simp add: s'_def prod_eq_iff subscribe_fst)
  with reg order replay off later show ?thesis
    by (simp add: Let_def s_def [symmetric])
qed

theorem onAuthStateChanged_registers_and_replays_witness:
  "notified (snd (onAuthStateChanged 7 (run (\<lambda>fn args. Inr [])
      [Bridge_event (Val \<lparr>result_authenticated = Val True, result_user = Val [(''id'', ''u1'')]\<rparr>)]
      constructor))) = [(7, Val [(''id'', ''u1'')])] \<and>
   notified (snd (onAuthStateChanged 7 (run (\<lambda>fn args. Inr []) [] constructor))) = []"
proof -
  have cached: "priv_authResult (run (\<lambda>fn args. Inr [])
      [Bridge_event (Val \<lparr>result_authenticated = Val True, result_user = Val [(''id'', ''u1'')]\<rparr>)]
      constructor) = Val \<lparr>result_authenticated = Val True, result_user = Val [(''id'', ''u1'')]\<rparr>"
    by code_simp
  have quiet: "notified (run (\<lambda>fn args. Inr [])
      [Bridge_event (Val \<lparr>result_authenticated = Val True, result_user = Val [(''id'', ''u1'')]\<rparr>)]
      constructor) = []"
    by code_simp
  have fresh: "priv_authResult (run (\<lambda>fn args. Inr []) [] constructor) = Null"
    by code_simp
  have quiet0: "notified (run (\<lambda>fn args. Inr []) [] constructor) = []"
    by code_simp
  show ?thesis
    using onAuthStateChanged_registers_and_replays [of "\<lambda>fn args. Inr []"
      "[Bridge_event (Val \<lparr>result_authenticated = Val True, result_user = Val [(''id'', ''u1'')]\<rparr>)]" 7]
    onAuthStateChanged_registers_and_replays [of "\<lambda>fn args. Inr []" "[]" 7]
    by (simp add: Let_def case_prod_unfold cached quiet fresh quiet0)
qed

text \<open>
  C4: once a listener was registered and the function returned for it was called,
  nothing that follows invokes it again, however many bridge events there are, as long
  as the listener is not registered anew.
\<close>

theorem unsubscribed_listener_gets_nothing_further:
  assumes "onAuthStateChanged l s = (u, s1)"
    and "Subscribe l \<notin> set later"
  shows "notified_to l (run nm later (call_unsubscribe u (run nm between s1))) =
         notified_to l (call_unsubscribe u (run nm between s1))"
proof -
  from assms(1) have u: "u = Bound_offAuthStateChanged l"
    using subscribe_fst [of l s] by simp
  have "l \<notin> set (listeners (call_unsubscribe u (run nm between s1)) ''onAuthStateChanged'')"
    by (simp add: u off_listeners)
  from run_unregistered [OF this assms(2)] show ?thesis by simp
qed

theorem unsubscribed_listener_gets_nothing_further_witness:
  "notified_to 1
     (run (\<lambda>fn args. Inr [])
        [Bridge_event (Val \<lparr>result_authenticated = Val False, result_user = Null\<rparr>),
         Bridge_event (Val \<lparr>result_authenticated = Val True, result_user = Val [(''id'', ''u2'')]\<rparr>)]
        (call_unsubscribe (fst (onAuthStateChanged 1 constructor))
           (run (\<lambda>fn args. Inr [])
              [Bridge_event (Val \<lparr>result_authenticated = Val True, result_user = Val [(''id'', ''u1'')]\<rparr>)]
              (snd (onAuthStateChanged 1 constructor))))) =
   [Val [(''id'', ''u1'')]]"
proof -
  have reg: "onAuthStateChanged 1 constructor =
      (fst (onAuthStateChanged 1 constructor), snd (onAuthStateChanged 1 constructor))"
    by simp
  have later: "Subscribe 1 \<notin> set
        [Bridge_event (Val \<lparr>result_authenticated = Val False, result_user = Null\<rparr>),
         Bridge_event (Val \<lparr>result_authenticated = Val True, result_user = Val [(''id'', ''u2'')]\<rparr>)]"
    by simp
  have before: "notified_to 1
        (call_unsubscribe (fst (onAuthStateChanged 1 constructor))
           (run (\<lambda>fn args. Inr [])
              [Bridge_event (Val \<lparr>result_authenticated = Val True, result_user = Val [(''id'', ''u1'')]\<rparr>)]
              (snd (onAuthStateChanged 1 constructor)))) =
      [Val [(''id'', ''u1'')]]"
    by code_simp
  show ?thesis
    by (rule trans [OF unsubscribed_listener_gets_nothing_further [OF reg later] before])
qed

text \<open>
  C5: in every state reached from construction, handling an event object returns and
  adds one notification per registered listener, in the order of registration, each
  with the same payload: the user of the event, or \<open>null\<close>.  No listener is registered
  twice.
\<close>

theorem event_notifies_each_listener_once_in_order:
  "let s = run nm acts constructor;
       (r, s') = priv_onAuthStateChanged (Val a) s;
       ls = listeners s ''onAuthStateChanged''
   in r = Returned \<and> distinct ls \<and>
      notified s' = notified s @ map (\<lambda>l. (l, case result_user a of Val x \<Rightarrow> Val x | _ \<Rightarrow> Null)) ls"
proof -
  have "distinct (listeners (run nm acts constructor) ''onAuthStateChanged'')"
    by (rule run_distinct [OF constructor_distinct])
  then show ?thesis
    by (simp add: Let_def case_prod_unfold handler_fst handler_notified or_null_case)
qed

theorem event_notifies_each_listener_once_in_order_witness:
  "notified (snd (priv_onAuthStateChanged
      (Val \<lparr>result_authenticated = Val True, result_user = Val [(''id'', ''u1'')]\<rparr>)
      (run (\<lambda>fn args. Inr []) [Subscribe 3, Subscribe 5, Subscribe 3] constructor))) =
   [(3, Val [(''id'', ''u1'')]), (5, Val [(''id'', ''u1'')])]"
proof -
  have registered: "listeners (run (\<lambda>fn args. Inr []) [Subscribe 3, Subscribe 5, Subscribe 3] constructor)
      ''onAuthStateChanged'' = [3, 5]"
    by code_simp
  have quiet: "notified (run (\<lambda>fn args. Inr []) [Subscribe 3, Subscribe 5, Subscribe 3] constructor) = []"
    by code_simp
  show ?thesis
    using event_notifies_each_listener_once_in_order [of "\<lambda>fn args. Inr []"
      "[Subscribe 3, Subscribe 5, Subscribe 3]"
      "\<lparr>result_authenticated = Val True, result_user = Val [(''id'', ''u1'')]\<rparr>"]
    by (simp add: Let_def case_prod_unfold registered quiet)
qed

subsection \<open>Forwarding\<close>

text \<open>
  C6: whenever the bridge reports a failure for the native method and arguments of a
  forwarding method, the promise the facade returns is rejected with that very error,
  and the facade has made one call, not more.
\<close>

theorem bridge_failure_propagates_unchanged:
  assumes "nm (native_name c) (native_args c) = Inl e"
  shows "fst (forward nm c s) = Inl e \<and>
         length (native_calls (snd (forward nm c s))) = length (native_calls s) + 1"
  using assms by (simp add: forward_result forward_native_calls)

theorem bridge_failure_propagates_unchanged_witness:
  "fst (forward
      (\<lambda>fn args. if fn = ''signInWithEmail''
         then Inl \<lparr>code = ''auth/wrong-password'', message = ''The password is invalid''\<rparr>
         else Inr [])
      (SignInWithEmailAndPassword ''a@example.com'' ''bad'') constructor) =
   Inl \<lparr>code = ''auth/wrong-password'', message = ''The password is invalid''\<rparr> \<and>
   length (native_calls (snd (forward
      (\<lambda>fn args. if fn = ''signInWithEmail''
         then Inl \<lparr>code = ''auth/wrong-password'', message = ''The password is invalid''\<rparr>
         else Inr [])
      (SignInWithEmailAndPassword ''a@example.com'' ''bad'') constructor))) = 2"
  using bridge_failure_propagates_unchanged [of
      "\<lambda>fn args. if fn = ''signInWithEmail''
         then Inl \<lparr>code = ''auth/wrong-password'', message = ''The password is invalid''\<rparr>
         else Inr []"
      "SignInWithEmailAndPassword ''a@example.com'' ''bad''"
      "\<lparr>code = ''auth/wrong-password'', message = ''The password is invalid''\<rparr>"
      constructor]
  by (simp add: constructor_def)

text \<open>
  C7: the error prefix each forwarding method gives to \<open>promisify\<close>.  It is \<open>auth/\<close> for
  every method but \<open>signInWithCustomToken\<close>, which gives none.
\<close>

theorem errorPrefix_of_each_forwarding_method:
  "map call_errorPrefix (native_calls (snd (forward nm c s))) =
     map call_errorPrefix (native_calls s) @
       [case c of SignInWithCustomToken t \<Rightarrow> None | _ \<Rightarrow> Some ''auth/'']"
  by (simp add: forward_native_calls)

text \<open>
  C8: a forwarding method leaves \<open>_user\<close>, \<open>_authResult\<close> and \<open>authenticated\<close> as they
  were (and the user objects, the listeners and the notifications too), and in every
  state, with or without a cached user, it makes its call into the bridge and returns
  what the bridge answers.
\<close>

theorem forwarding_leaves_cached_state:
  "let (p, s') = forward nm c s in
     priv_user s' = priv_user s \<and> priv_authResult s' = priv_authResult s \<and>
     authenticated s' = authenticated s \<and> heap s' = heap s \<and>
     listeners s' = listeners s \<and> notified s' = notified s \<and>
     p = nm (native_name c) (native_args c) \<and>
     map call_fn (native_calls s') = map call_fn (native_calls s) @ [native_name c] \<and>
     map call_args (native_calls s') = map call_args (native_calls s) @ [native_args c]"
  using forward_result [of nm c s] forward_native_calls [of nm c s]
  by (simp add: case_prod_unfold forward_fields)

theorem forwarding_leaves_cached_state_witness:
  "priv_user (snd (forward (\<lambda>fn args. Inl \<lparr>code = ''auth/no-current-user'', message = []\<rparr>)
      (UpdateEmail ''b@example.com'') constructor)) = None \<and>
   fst (forward (\<lambda>fn args. Inl \<lparr>code = ''auth/no-current-user'', message = []\<rparr>)
      (UpdateEmail ''b@example.com'') constructor) =
     Inl \<lparr>code = ''auth/no-current-user'', message = []\<rparr> \<and>
   map call_fn (native_calls (snd (forward (\<lambda>fn args. Inl \<lparr>code = ''auth/no-current-user'', message = []\<rparr>)
      (UpdateEmail ''b@example.com'') constructor))) = [''listenForAuth'', ''updateUserEmail'']"
proof -
  have fresh: "priv_user constructor = None"
    "map call_fn (native_calls constructor) = [''listenForAuth'']"
    by (simp_all add: constructor_def)
  show ?thesis
    using forwarding_leaves_cached_state [of "\<lambda>fn args. Inl \<lparr>code = ''auth/no-current-user'', message = []\<rparr>"
      "UpdateEmail ''b@example.com''" constructor]
    by (simp add: case_prod_unfold Let_def fresh)
qed

subsection \<open>The event handler on its own\<close>

text \<open>
  C9: on a \<open>null\<close> or \<open>undefined\<close> event the handler throws and no listener is
  notified; by then it has stored the event, set \<open>authenticated\<close> to false and cleared
  the handle.
\<close>

theorem null_event_throws_before_emit:
  assumes "auth = Null \<or> auth = Undefined"
  shows "fst (priv_onAuthStateChanged auth s) = Threw TypeError \<and>
         notified (snd (priv_onAuthStateChanged auth s)) = notified s \<and>
         priv_authResult (snd (priv_onAuthStateChanged auth s)) = auth \<and>
         authenticated (snd (priv_onAuthStateChanged auth s)) = False \<and>
         priv_user (snd (priv_onAuthStateChanged auth s)) = None"
  using assms
  by (auto simp: handler_fst handler_notified handler_authResult handler_authenticated
      handler_priv_user)

theorem null_event_throws_before_emit_witness:
  "fst (priv_onAuthStateChanged Null
      (run (\<lambda>fn args. Inr [])
         [Subscribe 3,
          Bridge_event (Val \<lparr>result_authenticated = Val True, result_user = Val [(''id'', ''u1'')]\<rparr>)]
         constructor)) = Threw TypeError \<and>
   notified (snd (priv_onAuthStateChanged Null
      (run (\<lambda>fn args. Inr [])
         [Subscribe 3,
          Bridge_event (Val \<lparr>result_authenticated = Val True, result_user = Val [(''id'', ''u1'')]\<rparr>)]
         constructor))) = [(3, Val [(''id'', ''u1'')])] \<and>
   fst (priv_onAuthStateChanged Undefined constructor) = Threw TypeError"
proof -
  have before: "notified (run (\<lambda>fn args. Inr [])
         [Subscribe 3,
          Bridge_event (Val \<lparr>result_authenticated = Val True, result_user = Val [(''id'', ''u1'')]\<rparr>)]
         constructor) = [(3, Val [(''id'', ''u1'')])]"
    by code_simp
  show ?thesis
    using null_event_throws_before_emit [of Null "run (\<lambda>fn args. Inr [])
         [Subscribe 3,
          Bridge_event (Val \<lparr>result_authenticated = Val True, result_user = Val [(''id'', ''u1'')]\<rparr>)]
         constructor"]
      null_event_throws_before_emit [of Undefined constructor]
    by (simp add: before)
qed

text \<open>
  C10: after construction and any sequence of events, \<open>authenticated\<close> is true exactly
  when there was an event and the most recent one was an object whose flag is
  \<open>true\<close>; and from any state, whatever the cached handle, handling an event object
  returns and leaves \<open>authenticated\<close> at that value.
\<close>

theorem authenticated_is_last_flag:
  "authenticated (process_events evs constructor) =
     (evs \<noteq> [] \<and> (\<exists>a. last evs = Val a \<and> result_authenticated a = Val True)) \<and>
   fst (priv_onAuthStateChanged (Val a) s) = Returned \<and>
   authenticated (snd (priv_onAuthStateChanged (Val a) s)) = (result_authenticated a = Val True)"
proof -
  have 1: "authenticated (process_events evs constructor) =
     (evs \<noteq> [] \<and> (\<exists>a. last evs = Val a \<and> result_authenticated a = Val True))"
  proof (cases evs rule: rev_cases)
    case Nil
    then show ?thesis by (simp add: process_events_def constructor_def)
  next
    case (snoc ys y)
    then show ?thesis
      by (cases y) (simp_all add: process_events_snoc handler_authenticated or_false_iff)
  qed
  have 2: "fst (priv_onAuthStateChanged (Val a) s) = Returned"
    by (simp add: handler_fst)
  have 3: "authenticated (snd (priv_onAuthStateChanged (Val a) s)) = (result_authenticated a = Val True)"
    by (simp add: handler_authenticated or_false_iff)
  from 1 2 3 show ?thesis by simp
qed

theorem authenticated_is_last_flag_witness:
  "authenticated (process_events
      [Val \<lparr>result_authenticated = Val True, result_user = Null\<rparr>] constructor) = True \<and>
   authenticated (process_events
      [Val \<lparr>result_authenticated = Val True, result_user = Null\<rparr>,
       Val \<lparr>result_authenticated = Undefined, result_user = Val [(''id'', ''u1'')]\<rparr>] constructor) = False"
  using authenticated_is_last_flag [of "[Val \<lparr>result_authenticated = Val True, result_user = Null\<rparr>]"]
    authenticated_is_last_flag [of "[Val \<lparr>result_authenticated = Val True, result_user = Null\<rparr>,
       Val \<lparr>result_authenticated = Undefined, result_user = Val [(''id'', ''u1'')]\<rparr>]"]
  by simp

end
